theory Spec2Isabelle
  imports Complex_Main "HOL-Library.Multiset"
begin

section \<open>Learner results of pebl2 (src/pebl2/result.py)\<close>

text \<open>
  The module keeps the best networks a learner has scored: \<open>LearnerResult\<close> holds a list of
  scored networks in ascending order of score, a dictionary of the hashes of the networks it
  holds, and the list of the runs. \<open>merge\<close> combines several results.

  Scores and timestamps are Python numbers, modelled as reals; the capacity is a Python
  integer, modelled as \<open>int\<close>. An operation that can raise returns its outcome (the exception
  raised, or the value returned) next to the object as the call leaves it.
\<close>

subsection \<open>Values\<close>

datatype error = IndexError | KeyError | TypeError | InvalidStateError
  \<comment> \<open>\<open>InvalidStateError\<close> is the name the specification uses; nothing in the source raises it.\<close>

datatype pyret = PyNone | PyBool bool
  \<comment> \<open>What a method returns: a method that ends without \<open>return\<close> gives \<open>None\<close>.\<close>

text \<open>
  Modelled from the spec: the class \<open>Network\<close> of \<open>pebl2.network\<close> is not in the source given.
  A network is a structure (its edges) over a shared node descriptor, with a score; its hash
  is the fingerprint of its edges, two networks are equal when their structures are equal
  (so a network is equal to no integer), and networks are ordered by score. The fingerprint
  function is a parameter \<open>hsh\<close> of the operations that hash.
\<close>

record ('v, 'e) network =
  net_nodes :: "'v option"
  edges :: 'e
  score :: real

definition hash_net :: "('e \<Rightarrow> int) \<Rightarrow> ('v, 'e) network \<Rightarrow> int" where
  "hash_net hsh net = hsh (edges net)"

definition net_eq :: "('v, 'e) network \<Rightarrow> ('v, 'e) network \<Rightarrow> bool" where
  "net_eq a b \<longleftrightarrow> edges a = edges b"

definition net_lt :: "('v, 'e) network \<Rightarrow> ('v, 'e) network \<Rightarrow> bool" where
  "net_lt a b \<longleftrightarrow> score a < score b"

text \<open>\<open>LearnerRunStats\<close>: \<open>end\<close> is \<open>None\<close> until the run is stopped.\<close>

record run_stats =
  start :: real
  end_t :: "real option"
  host :: string

definition LearnerRunStats :: "string \<Rightarrow> real \<Rightarrow> run_stats" where
  "LearnerRunStats hostname st = \<lparr>start = st, end_t = None, host = hostname\<rparr>"

text \<open>
  The keys of \<open>nethashes\<close>: \<open>add_network\<close> stores the integer \<open>hash(net)\<close>, \<open>merge\<close> stores
  the network objects themselves.
\<close>

datatype ('v, 'e) key = HashKey int | NetKey "('v, 'e) network"

record 'v dataset =
  variables :: 'v

record 'v learner =
  learner_data :: "'v dataset option"

record ('v, 'e) learner_result =
  data :: "'v dataset option"
  nodes :: "'v option"
  size_r :: int
  networks :: "('v, 'e) network list"
  nethashes :: "('v, 'e) key \<rightharpoonup> int"
  runs :: "run_stats list"

subsection \<open>Construction and runs\<close>

text \<open>The default of the parameter \<open>result.size\<close> in \<open>_params\<close>.\<close>

definition result_size_default :: int where
  "result_size_default = 1000"

text \<open>
  \<open>__init__(self, learner_=None, size=None)\<close>, with \<open>lrn\<close> for \<open>learner_\<close>. \<open>cfg\<close> is what
  \<open>config.get('result.size')\<close> returns (the module \<open>config\<close> is not in the source given).
  \<open>size or cfg\<close> takes \<open>cfg\<close> when \<open>size\<close> is \<open>None\<close> and also when it is \<open>0\<close>. A learner
  and a dataset are objects and count as true.
\<close>

definition LearnerResult :: "int \<Rightarrow> 'v learner option \<Rightarrow> int option \<Rightarrow> ('v, 'e) learner_result" where
  "LearnerResult cfg lrn sz =
     (let d = (case lrn of None \<Rightarrow> None | Some l \<Rightarrow> learner_data l) in
      \<lparr>data = d,
       nodes = (case d of None \<Rightarrow> None | Some ds \<Rightarrow> Some (variables ds)),
       size_r = (case sz of None \<Rightarrow> cfg | Some n \<Rightarrow> if n = 0 then cfg else n),
       networks = [],
       nethashes = Map.empty,
       runs = []\<rparr>)"

text \<open>\<open>start_run\<close>: \<open>now\<close> is \<open>time.time()\<close>, \<open>hostname\<close> is \<open>socket.gethostname()\<close>.\<close>

definition start_run ::
  "string \<Rightarrow> real \<Rightarrow> ('v, 'e) learner_result \<Rightarrow> (error + pyret) \<times> ('v, 'e) learner_result" where
  "start_run hostname now r = (Inr PyNone, r\<lparr>runs := runs r @ [LearnerRunStats hostname now]\<rparr>)"

text \<open>\<open>stop_run\<close>: \<open>self.runs[-1].end = time.time()\<close>; \<open>runs[-1]\<close> of an empty list raises.\<close>

definition stop_run ::
  "real \<Rightarrow> ('v, 'e) learner_result \<Rightarrow> (error + pyret) \<times> ('v, 'e) learner_result" where
  "stop_run now r =
     (if runs r = [] then (Inl IndexError, r)
      else (Inr PyNone, r\<lparr>runs := butlast (runs r) @ [(last (runs r))\<lparr>end_t := Some now\<rparr>]\<rparr>))"

subsection \<open>Sorted insertion\<close>

text \<open>
  \<open>bisect.insort\<close> of the standard library (\<open>insort_right\<close>): a binary search for the
  position after the last element that is not greater than \<open>x\<close>, then \<open>a.insert(lo, x)\<close>.
\<close>

function bisect_right :: "('v, 'e) network list \<Rightarrow> ('v, 'e) network \<Rightarrow> nat \<Rightarrow> nat \<Rightarrow> nat" where
  "bisect_right a x lo hi =
     (if lo < hi then
        (let mid = (lo + hi) div 2 in
         if net_lt x (a ! mid) then bisect_right a x lo mid
         else bisect_right a x (mid + 1) hi)
      else lo)"
  by pat_completeness auto
termination
  by (relation "measure (\<lambda>(a, x, lo, hi). hi - lo)") auto

declare bisect_right.simps [simp del]

definition insort_right :: "('v, 'e) network list \<Rightarrow> ('v, 'e) network \<Rightarrow> ('v, 'e) network list" where
  "insort_right a x = (let lo = bisect_right a x 0 (length a) in take lo a @ x # drop lo a)"

subsection \<open>Adding a network\<close>

text \<open>
  \<open>add_network(self, net, score)\<close>. Below capacity (or with capacity \<open>0\<close>) a network whose
  hash is not in \<open>nethashes\<close> is copied with the score and inserted. At capacity, a network
  that scores above \<open>nets[0]\<close> and whose hash is new replaces \<open>nets[0]\<close>: \<open>nets[0]\<close> raises on
  an empty list, \<open>nethashes.pop\<close> raises on a missing key, and \<open>nets.remove(nets[0])\<close>
  removes the first element. Both raises come before any change. The method has no
  \<open>return\<close>.
\<close>

definition add_network ::
  "('e \<Rightarrow> int) \<Rightarrow> ('v, 'e) learner_result \<Rightarrow> ('v, 'e) network \<Rightarrow> real
     \<Rightarrow> (error + pyret) \<times> ('v, 'e) learner_result" where
  "add_network hsh r net sc =
     (let nets = networks r;
          nhs = nethashes r;
          nethash = HashKey (hash_net hsh net);
          snet = \<lparr>net_nodes = nodes r, edges = edges net, score = sc\<rparr>
      in
        if size_r r = 0 \<or> int (length nets) < size_r r then
          (if nhs nethash = None then
             (Inr PyNone, r\<lparr>networks := insort_right nets snet, nethashes := nhs(nethash \<mapsto> 1)\<rparr>)
           else (Inr PyNone, r))
        else if nets = [] then (Inl IndexError, r)
        else if score (hd nets) < sc \<and> nhs nethash = None then
          (if nhs (HashKey (hash_net hsh (hd nets))) = None then (Inl KeyError, r)
           else (Inr PyNone,
                 r\<lparr>networks := insort_right (tl nets) snet,
                   nethashes := (nhs(HashKey (hash_net hsh (hd nets)) := None))(nethash \<mapsto> 1)\<rparr>))
        else (Inr PyNone, r))"

text \<open>
  A sequence of calls of \<open>add_network\<close>; an exception ends the sequence, as it does when no
  caller catches it.
\<close>

fun add_networks ::
  "('e \<Rightarrow> int) \<Rightarrow> ('v, 'e) learner_result \<Rightarrow> (('v, 'e) network \<times> real) list
     \<Rightarrow> (error + pyret) \<times> ('v, 'e) learner_result" where
  "add_networks hsh r [] = (Inr PyNone, r)"
| "add_networks hsh r ((net, sc) # rest) =
     (case add_network hsh r net sc of
        (Inl e, r') \<Rightarrow> (Inl e, r')
      | (Inr v, r') \<Rightarrow> add_networks hsh r' rest)"

text \<open>The list handed to \<open>posterior\<close>: the networks, best first.\<close>

definition ranked_view :: "('v, 'e) learner_result \<Rightarrow> ('v, 'e) network list" where
  "ranked_view r = rev (networks r)"

subsection \<open>Merging\<close>

text \<open>
  \<open>set(xs)\<close> adds the elements in order and keeps the first of those that are equal.
  The order in which \<open>list(set(xs))\<close> yields them is that of the hash table, which the
  language leaves open: it is the parameter \<open>set_order\<close> of \<open>merge\<close>.
\<close>

definition py_set_add :: "('v, 'e) network list \<Rightarrow> ('v, 'e) network \<Rightarrow> ('v, 'e) network list" where
  "py_set_add acc x = (if \<exists>y \<in> set acc. net_eq y x then acc else acc @ [x])"

definition py_set :: "('v, 'e) network list \<Rightarrow> ('v, 'e) network list" where
  "py_set xs = foldl py_set_add [] xs"

text \<open>
  \<open>merge(*args)\<close> on the flattened list of its arguments (\<open>flatten\<close> of \<open>pebl2.util\<close> is
  not in the source given). A single result is returned as it is. Otherwise a new
  \<open>LearnerResult()\<close> is filled in: \<open>results[0].data\<close> raises on an empty list, and
  \<open>results[0].nodes()\<close> calls the attribute \<open>nodes\<close>, which is \<open>None\<close> or the variables of
  the dataset: \<open>None\<close> is not callable, and \<open>call_nodes\<close> says what calling the variables
  gives (their class is not in the source given). \<open>list.sort\<close> is stable. The new
  \<open>nethashes\<close> has the networks themselves as keys. Every result built by \<open>LearnerResult\<close>
  has the attribute \<open>runs\<close>.
\<close>

definition merge ::
  "int \<Rightarrow> ('v \<Rightarrow> error + 'v option) \<Rightarrow> (('v, 'e) network list \<Rightarrow> ('v, 'e) network list)
     \<Rightarrow> ('v, 'e) learner_result list \<Rightarrow> error + ('v, 'e) learner_result" where
  "merge cfg call_nodes set_order results =
     (if length results = 1 then Inr (hd results)
      else
        (let newresults = LearnerResult cfg None None in
         case results of
           [] \<Rightarrow> Inl IndexError
         | r0 # _ \<Rightarrow>
             (case (case nodes r0 of None \<Rightarrow> Inl TypeError | Some v \<Rightarrow> call_nodes v) of
                Inl e \<Rightarrow> Inl e
              | Inr nd \<Rightarrow>
                  (let allnets = sort_key score (set_order (py_set (concat (map networks results))))
                   in Inr (newresults\<lparr>data := data r0,
                                      nodes := nd,
                                      networks := allnets,
                                      nethashes := map_of (map (\<lambda>net. (NetKey net, 1)) allnets),
                                      runs := concat (map runs results)\<rparr>)))))"

subsection \<open>Well-formed results\<close>

text \<open>
  What the module keeps between calls: the keys of \<open>nethashes\<close> are the hashes of the
  networks held, no two networks held have the same hash, and the networks are in ascending
  order of score.
\<close>

definition index_ok :: "('e \<Rightarrow> int) \<Rightarrow> ('v, 'e) learner_result \<Rightarrow> bool" where
  "index_ok hsh r \<longleftrightarrow>
     dom (nethashes r) = HashKey ` hash_net hsh ` set (networks r) \<and>
     distinct (map (hash_net hsh) (networks r))"

definition ascending :: "('v, 'e) learner_result \<Rightarrow> bool" where
  "ascending r \<longleftrightarrow> sorted (map score (networks r))"

section \<open>Properties\<close>

subsection \<open>The binary search and the insertion\<close>

text \<open>
  The search stays between its bounds, so the insertion adds exactly one element. On a
  list in ascending order of score it returns the position that keeps the order.
\<close>

lemma bisect_right_bounds:
  "lo \<le> hi \<Longrightarrow> lo \<le> bisect_right a x lo hi \<and> bisect_right a x lo hi \<le> hi"
proof (induction a x lo hi rule: bisect_right.induct)
  case (1 a x lo hi)
  show ?case
  proof (cases "lo < hi")
    case False
    with "1.prems" show ?thesis by (simp add: bisect_right.simps)
  next
    case True
    let ?mid = "(lo + hi) div 2"
    have m: "lo \<le> ?mid" "?mid < hi" using True by auto
    show ?thesis
    proof (cases "net_lt x (a ! ?mid)")
      case True
      from "1.IH"(1)[OF \<open>lo < hi\<close> refl True m(1)] m \<open>lo < hi\<close> True
      show ?thesis by (subst (1 2) bisect_right.simps) (simp add: Let_def)
    next
      case False
      have "?mid + 1 \<le> hi" using m by simp
      from "1.IH"(2)[OF \<open>lo < hi\<close> refl False this] m \<open>lo < hi\<close> False
      show ?thesis by (subst (1 2) bisect_right.simps) (simp add: Let_def)
    qed
  qed
qed

lemma bisect_right_le_length: "bisect_right a x 0 (length a) \<le> length a"
  using bisect_right_bounds[of 0 "length a" a x] by simp

lemma length_insort_right: "length (insort_right a x) = Suc (length a)"
  using bisect_right_le_length[of a x] by (simp add: insort_right_def Let_def)

lemma mset_insort_right: "mset (insort_right a x) = add_mset x (mset a)"
proof -
  have "mset (take n a @ x # drop n a) = add_mset x (mset a)" for n
    by (metis append_take_drop_id mset.simps(2) mset_append union_mset_add_mset_right)
  then show ?thesis by (simp add: insort_right_def Let_def)
qed

lemma set_insort_right: "set (insort_right a x) = insert x (set a)"
  using mset_insort_right[of a x] by (metis set_mset_add_mset_insert set_mset_mset)

lemma bisect_right_sorted:
  assumes "sorted (map score a)" "lo \<le> hi" "hi \<le> length a"
    and "\<forall>j<lo. score (a ! j) \<le> score x"
    and "\<forall>j. hi \<le> j \<and> j < length a \<longrightarrow> score x < score (a ! j)"
  shows "(\<forall>j<bisect_right a x lo hi. score (a ! j) \<le> score x) \<and>
         (\<forall>j. bisect_right a x lo hi \<le> j \<and> j < length a \<longrightarrow> score x < score (a ! j))"
  using assms
proof (induction a x lo hi rule: bisect_right.induct)
  case (1 a x lo hi)
  show ?case
  proof (cases "lo < hi")
    case False
    with "1.prems" have "lo = hi" by simp
    with "1.prems" show ?thesis by (simp add: bisect_right.simps)
  next
    case True
    let ?mid = "(lo + hi) div 2"
    have m: "lo \<le> ?mid" "?mid < hi" "?mid < length a" using True "1.prems"(3) by auto
    have srt: "\<And>i j. i \<le> j \<Longrightarrow> j < length a \<Longrightarrow> score (a ! i) \<le> score (a ! j)"
      using "1.prems"(1) by (simp add: sorted_iff_nth_mono)
    show ?thesis
    proof (cases "net_lt x (a ! ?mid)")
      case lt: True
      have up: "\<forall>j. ?mid \<le> j \<and> j < length a \<longrightarrow> score x < score (a ! j)"
        using lt srt[of ?mid] by (fastforce simp: net_lt_def)
      have eq: "bisect_right a x lo hi = bisect_right a x lo ?mid"
        using True lt by (subst bisect_right.simps) (simp add: Let_def)
      show ?thesis unfolding eq
        using "1.IH"(1)[OF True refl lt "1.prems"(1) m(1) _ "1.prems"(4) up] m by simp
    next
      case ge: False
      have low: "\<forall>j<?mid + 1. score (a ! j) \<le> score x"
      proof (intro allI impI)
        fix j assume "j < ?mid + 1"
        then have "score (a ! j) \<le> score (a ! ?mid)" using srt[of j ?mid] m by simp
        with ge show "score (a ! j) \<le> score x" by (simp add: net_lt_def)
      qed
      have eq: "bisect_right a x lo hi = bisect_right a x (?mid + 1) hi"
        using True ge by (subst bisect_right.simps) (simp add: Let_def)
      have "?mid + 1 \<le> hi" using m by simp
      show ?thesis unfolding eq
        using "1.IH"(2)[OF True refl ge "1.prems"(1) \<open>?mid + 1 \<le> hi\<close> "1.prems"(3) low "1.prems"(5)] .
    qed
  qed
qed

lemma sorted_insort_right:
  assumes "sorted (map score a)"
  shows "sorted (map score (insort_right a x))"
proof -
  let ?i = "bisect_right a x 0 (length a)"
  have b: "(\<forall>j<?i. score (a ! j) \<le> score x) \<and>
           (\<forall>j. ?i \<le> j \<and> j < length a \<longrightarrow> score x < score (a ! j))"
    using bisect_right_sorted[OF assms, of 0 "length a" x] by simp
  have le: "?i \<le> length a" by (rule bisect_right_le_length)
  have t: "\<forall>y \<in> set (take ?i a). score y \<le> score x"
    using b le by (auto simp: in_set_conv_nth)
  have d: "\<forall>y \<in> set (drop ?i a). score x \<le> score y"
  proof
    fix y assume "y \<in> set (drop ?i a)"
    then obtain k where "k < length a - ?i" "y = a ! (?i + k)"
      by (auto simp: in_set_conv_nth)
    with b show "score x \<le> score y" by (simp add: less_imp_le)
  qed
  have s1: "sorted (map score (take ?i a))" "sorted (map score (drop ?i a))"
    using assms by (simp_all add: sorted_map)
  have td: "\<forall>y \<in> set (take ?i a). \<forall>z \<in> set (drop ?i a). score y \<le> score z"
    using t d by (meson order_trans)
  show ?thesis
    unfolding insort_right_def Let_def
    using s1 t d td by (auto simp: sorted_append)
qed

subsection \<open>What \<open>add_network\<close> keeps\<close>

text \<open>
  \<open>add_network\<close> changes the networks and their index only. A new result is well formed,
  and \<open>add_network\<close> keeps a result well formed; with a positive capacity it keeps the
  number of networks within the capacity and, on a well-formed result, does not raise.
\<close>

lemma size_r_add_network [simp]: "size_r (snd (add_network hsh r net sc)) = size_r r"
  by (simp add: add_network_def Let_def)

lemma runs_add_network [simp]: "runs (snd (add_network hsh r net sc)) = runs r"
  by (simp add: add_network_def Let_def)

lemma nodes_add_network [simp]: "nodes (snd (add_network hsh r net sc)) = nodes r"
  by (simp add: add_network_def Let_def)

lemma index_ok_LearnerResult: "index_ok hsh (LearnerResult cfg lrn sz)"
  by (simp add: index_ok_def LearnerResult_def Let_def)

lemma ascending_LearnerResult: "ascending (LearnerResult cfg lrn sz)"
  by (simp add: ascending_def LearnerResult_def Let_def)

lemma hash_net_snet [simp]:
  "hash_net hsh \<lparr>net_nodes = n, edges = edges net, score = sc\<rparr> = hash_net hsh net"
  by (simp add: hash_net_def)

lemma index_ok_insert:
  assumes ok: "index_ok hsh r" and new: "nethashes r (HashKey (hash_net hsh net)) = None"
    and s: "hash_net hsh snet = hash_net hsh net"
  shows "index_ok hsh (r\<lparr>networks := insort_right (networks r) snet,
                          nethashes := (nethashes r)(HashKey (hash_net hsh net) \<mapsto> 1)\<rparr>)"
proof -
  have "HashKey (hash_net hsh net) \<notin> dom (nethashes r)"
    using new by (simp add: domIff)
  then have notin: "hash_net hsh net \<notin> hash_net hsh ` set (networks r)"
    using ok unfolding index_ok_def by blast
  have "mset (map (hash_net hsh) (insort_right (networks r) snet)) =
        add_mset (hash_net hsh net) (mset (map (hash_net hsh) (networks r)))"
    by (simp add: mset_insort_right s)
  then have "distinct (map (hash_net hsh) (insort_right (networks r) snet))"
    using ok notin
    by (metis (no_types, lifting) distinct.simps(2) index_ok_def list.set_map mset.simps(2)
        mset_eq_imp_distinct_iff)
  then show ?thesis
    using ok by (auto simp: index_ok_def set_insort_right s)
qed

lemma index_ok_replace:
  assumes ok: "index_ok hsh r" and new: "nethashes r (HashKey (hash_net hsh net)) = None"
    and s: "hash_net hsh snet = hash_net hsh net" and ne: "networks r \<noteq> []"
  shows "index_ok hsh (r\<lparr>networks := insort_right (tl (networks r)) snet,
            nethashes := ((nethashes r)(HashKey (hash_net hsh (hd (networks r))) := None))
                           (HashKey (hash_net hsh net) \<mapsto> 1)\<rparr>)"
proof -
  obtain m rest where nets: "networks r = m # rest" using ne by (cases "networks r") auto
  have d: "distinct (map (hash_net hsh) rest)" "hash_net hsh m \<notin> hash_net hsh ` set rest"
    using ok nets by (auto simp: index_ok_def)
  have "HashKey (hash_net hsh net) \<notin> dom (nethashes r)"
    using new by (simp add: domIff)
  then have notin: "hash_net hsh net \<notin> hash_net hsh ` set (networks r)"
    using ok unfolding index_ok_def by blast
  then have notin': "hash_net hsh net \<notin> hash_net hsh ` set rest" using nets by auto
  have "mset (map (hash_net hsh) (insort_right rest snet)) =
        add_mset (hash_net hsh net) (mset (map (hash_net hsh) rest))"
    by (simp add: mset_insort_right s)
  then have dist: "distinct (map (hash_net hsh) (insort_right rest snet))"
    using d notin'
    by (metis (no_types, lifting) distinct.simps(2) list.set_map mset.simps(2)
        mset_eq_imp_distinct_iff)
  have dm: "dom (nethashes r) = HashKey ` hash_net hsh ` set (m # rest)"
    using ok nets by (simp add: index_ok_def)
  have "dom (nethashes r) - {HashKey (hash_net hsh m)} = HashKey ` hash_net hsh ` set rest"
    using d(2) unfolding dm by (auto simp: image_iff)
  then show ?thesis
    using dist nets by (simp add: index_ok_def set_insort_right s)
qed

lemma index_ok_add_network:
  "index_ok hsh r \<Longrightarrow> index_ok hsh (snd (add_network hsh r net sc))"
  using index_ok_insert[of hsh r net "\<lparr>net_nodes = nodes r, edges = edges net, score = sc\<rparr>"]
        index_ok_replace[of hsh r net "\<lparr>net_nodes = nodes r, edges = edges net, score = sc\<rparr>"]
  by (simp add: add_network_def Let_def)

lemma ascending_add_network:
  "ascending r \<Longrightarrow> ascending (snd (add_network hsh r net sc))"
proof -
  assume a: "ascending r"
  then have "sorted (map score (tl (networks r)))"
    by (simp add: ascending_def map_tl sorted_tl)
  with a show ?thesis
    by (simp add: add_network_def Let_def ascending_def sorted_insort_right)
qed

lemma length_add_network_le:
  "0 < size_r r \<Longrightarrow> int (length (networks r)) \<le> size_r r \<Longrightarrow>
   int (length (networks (snd (add_network hsh r net sc)))) \<le> size_r r"
  by (auto simp: add_network_def Let_def length_insort_right)

lemma add_network_no_raise:
  "0 < size_r r \<Longrightarrow> index_ok hsh r \<Longrightarrow> fst (add_network hsh r net sc) = Inr PyNone"
proof -
  assume sz: "0 < size_r r" and ok: "index_ok hsh r"
  have "networks r \<noteq> [] \<Longrightarrow> nethashes r (HashKey (hash_net hsh (hd (networks r)))) \<noteq> None"
    using ok by (cases "networks r") (auto simp: index_ok_def dom_def)
  with sz show ?thesis
    by (auto simp: add_network_def Let_def)
qed

lemma add_networks_within_capacity:
  "0 < size_r r \<Longrightarrow> index_ok hsh r \<Longrightarrow> int (length (networks r)) \<le> size_r r \<Longrightarrow>
   fst (add_networks hsh r offers) = Inr PyNone \<and>
   index_ok hsh (snd (add_networks hsh r offers)) \<and>
   size_r (snd (add_networks hsh r offers)) = size_r r \<and>
   int (length (networks (snd (add_networks hsh r offers)))) \<le> size_r r"
proof (induction offers arbitrary: r)
  case Nil
  then show ?case by simp
next
  case (Cons p offers)
  obtain net sc where p: "p = (net, sc)" by (cases p)
  let ?a = "add_network hsh r net sc"
  have f: "fst ?a = Inr PyNone" using Cons.prems by (simp add: add_network_no_raise)
  have step: "add_networks hsh r (p # offers) = add_networks hsh (snd ?a) offers"
    using f unfolding p by (cases ?a) auto
  have "0 < size_r (snd ?a)" "index_ok hsh (snd ?a)"
       "int (length (networks (snd ?a))) \<le> size_r (snd ?a)"
    using Cons.prems by (simp_all add: index_ok_add_network length_add_network_le)
  from Cons.IH[OF this] show ?case unfolding step by simp
qed

text \<open>The equations that evaluate the operations on given results.\<close>

lemmas eval_defs = add_network_def LearnerResult_def insort_right_def bisect_right.simps
  hash_net_def net_lt_def Let_def ranked_view_def

subsection \<open>Offering a structure that is already held\<close>

text \<open>
  C1. When the hash of the offered network is already a key of \<open>nethashes\<close>,
  \<open>add_network\<close> leaves the result as it is, networks and index alike, whatever the score
  offered; nothing is inserted and nothing is evicted. The call returns \<open>None\<close>, except on a
  result with a negative capacity and no networks, where \<open>nets[0]\<close> raises. The same
  structure offered with the scores 5 and then 9 leaves the entry of score 5 only.
\<close>

theorem add_network_duplicate_unchanged:
  "nethashes r (HashKey (hash_net hsh net)) \<noteq> None \<Longrightarrow>
   snd (add_network hsh r net sc) = r \<and>
   fst (add_network hsh r net sc) =
     (if size_r r < 0 \<and> networks r = [] then Inl IndexError else Inr PyNone)"
  by (cases "nethashes r (HashKey (hash_net hsh net))") (auto simp: add_network_def Let_def)

theorem add_network_duplicate_unchanged_witness:
  "nethashes (snd (add_network (int \<circ> length)
       (LearnerResult 1000 None (Some 2) :: (nat, (nat \<times> nat) list) learner_result)
       \<lparr>net_nodes = None, edges = [(0, 1)], score = 0\<rparr> 5))
     (HashKey (hash_net (int \<circ> length) \<lparr>net_nodes = None :: nat option, edges = [(0 :: nat, 1 :: nat)], score = 0\<rparr>)) \<noteq> None \<and>
   map score (networks (snd (add_networks (int \<circ> length)
       (LearnerResult 1000 None (Some 2) :: (nat, (nat \<times> nat) list) learner_result)
       [(\<lparr>net_nodes = None, edges = [(0, 1)], score = 0\<rparr>, 5),
        (\<lparr>net_nodes = None, edges = [(0, 1)], score = 0\<rparr>, 9)]))) = [5] \<and>
   fst (add_networks (int \<circ> length)
       (LearnerResult 1000 None (Some 2) :: (nat, (nat \<times> nat) list) learner_result)
       [(\<lparr>net_nodes = None, edges = [(0, 1)], score = 0\<rparr>, 5),
        (\<lparr>net_nodes = None, edges = [(0, 1)], score = 0\<rparr>, 9)]) = Inr PyNone"
proof -
  let ?h = "int \<circ> length :: (nat \<times> nat) list \<Rightarrow> int"
  let ?a = "\<lparr>net_nodes = None :: nat option, edges = [(0 :: nat, 1 :: nat)], score = 0\<rparr>"
  let ?r0 = "LearnerResult 1000 None (Some 2) :: (nat, (nat \<times> nat) list) learner_result"
  let ?r1 = "snd (add_network ?h ?r0 ?a 5)"
  have first: "add_network ?h ?r0 ?a 5 = (Inr PyNone, ?r1)"
    by (simp add: eval_defs)
  have present: "nethashes ?r1 (HashKey (hash_net ?h ?a)) \<noteq> None"
    by (simp add: eval_defs)
  have r1: "map score (networks ?r1) = [5]" "size_r ?r1 = 2"
    by (simp_all add: eval_defs)
  from add_network_duplicate_unchanged[OF present, of 9]
  have "add_network ?h ?r1 ?a 9 = (Inr PyNone, ?r1)"
    using r1 by (simp add: prod_eq_iff)
  then have "add_networks ?h ?r0 [(?a, 5), (?a, 9)] = (Inr PyNone, ?r1)"
    by (subst add_networks.simps, subst first) simp
  with present r1 show ?thesis by simp
qed

subsection \<open>Offering a new structure to a full result\<close>

text \<open>
  C2. On a well-formed result with a positive capacity that holds as many networks as its
  capacity, offering a network whose hash is new does not raise; the first network is one of
  least score; when the offered score is strictly above it, the first network leaves the
  list and the index, the copy of the offered network is inserted by \<open>insort\<close>, the list
  stays in ascending order and keeps its length; otherwise the result is unchanged. With
  capacity 2 and distinct structures offered with the scores 5, 3, 8, 1 the ranked view is
  8, 5.
\<close>

theorem add_network_at_capacity:
  assumes cap: "0 < size_r r" and full: "int (length (networks r)) = size_r r"
    and ok: "index_ok hsh r" and asc: "ascending r"
    and new: "nethashes r (HashKey (hash_net hsh net)) = None"
  shows "fst (add_network hsh r net sc) = Inr PyNone \<and>
         (\<forall>x \<in> set (networks r). score (hd (networks r)) \<le> score x) \<and>
         (if score (hd (networks r)) < sc then
            networks (snd (add_network hsh r net sc)) =
              insort_right (tl (networks r)) \<lparr>net_nodes = nodes r, edges = edges net, score = sc\<rparr> \<and>
            mset (networks (snd (add_network hsh r net sc))) =
              add_mset \<lparr>net_nodes = nodes r, edges = edges net, score = sc\<rparr>
                (mset (networks r) - {#hd (networks r)#}) \<and>
            length (networks (snd (add_network hsh r net sc))) = length (networks r) \<and>
            ascending (snd (add_network hsh r net sc)) \<and>
            dom (nethashes (snd (add_network hsh r net sc))) =
              insert (HashKey (hash_net hsh net))
                (dom (nethashes r) - {HashKey (hash_net hsh (hd (networks r)))}) \<and>
            hash_net hsh (hd (networks r)) \<notin> hash_net hsh ` set (networks (snd (add_network hsh r net sc))) \<and>
            index_ok hsh (snd (add_network hsh r net sc))
          else snd (add_network hsh r net sc) = r)"
proof -
  let ?snet = "\<lparr>net_nodes = nodes r, edges = edges net, score = sc\<rparr>"
  obtain m rest where nets: "networks r = m # rest"
    using cap full by (cases "networks r") auto
  have inold: "nethashes r (HashKey (hash_net hsh m)) \<noteq> None"
    using ok nets by (auto simp: index_ok_def dom_def)
  have notfull: "\<not> (size_r r = 0 \<or> int (length (networks r)) < size_r r)"
    using cap full by simp
  have least: "\<forall>x \<in> set (networks r). score m \<le> score x"
    using asc nets by (auto simp: ascending_def)
  have noraise: "fst (add_network hsh r net sc) = Inr PyNone"
    using cap ok by (rule add_network_no_raise)
  show ?thesis
  proof (cases "score m < sc")
    case False
    then have "snd (add_network hsh r net sc) = r"
      using notfull nets by (simp add: add_network_def Let_def)
    with False noraise least nets show ?thesis by simp
  next
    case True
    have upd: "snd (add_network hsh r net sc) =
        r\<lparr>networks := insort_right rest ?snet,
          nethashes := ((nethashes r)(HashKey (hash_net hsh m) := None))(HashKey (hash_net hsh net) \<mapsto> 1)\<rparr>"
      using notfull nets True new inold by (auto simp: add_network_def Let_def)
    have hm: "hash_net hsh m \<noteq> hash_net hsh net" using new inold by auto
    have "hash_net hsh m \<notin> hash_net hsh ` set rest"
      using ok nets by (auto simp: index_ok_def)
    then have gone: "hash_net hsh m \<notin> hash_net hsh ` set (insort_right rest ?snet)"
      using hm by (auto simp: set_insort_right)
    have "ascending (snd (add_network hsh r net sc))"
      using asc by (rule ascending_add_network)
    moreover have "index_ok hsh (snd (add_network hsh r net sc))"
      using ok by (rule index_ok_add_network)
    ultimately show ?thesis
      using True noraise least nets gone
      by (simp add: upd mset_insort_right length_insort_right)
  qed
qed

theorem add_network_at_capacity_witness:
  "0 < size_r (snd (add_networks (int \<circ> length)
       (LearnerResult 1000 None (Some 2) :: (nat, (nat \<times> nat) list) learner_result)
       [(\<lparr>net_nodes = None, edges = [(0, 1)], score = 0\<rparr>, 5),
        (\<lparr>net_nodes = None, edges = [(0, 1), (1, 2)], score = 0\<rparr>, 3)])) \<and>
   map score (networks (snd (add_networks (int \<circ> length)
       (LearnerResult 1000 None (Some 2) :: (nat, (nat \<times> nat) list) learner_result)
       [(\<lparr>net_nodes = None, edges = [(0, 1)], score = 0\<rparr>, 5),
        (\<lparr>net_nodes = None, edges = [(0, 1), (1, 2)], score = 0\<rparr>, 3)]))) = [3, 5] \<and>
   map score (networks (snd (add_networks (int \<circ> length)
       (LearnerResult 1000 None (Some 2) :: (nat, (nat \<times> nat) list) learner_result)
       [(\<lparr>net_nodes = None, edges = [(0, 1)], score = 0\<rparr>, 5),
        (\<lparr>net_nodes = None, edges = [(0, 1), (1, 2)], score = 0\<rparr>, 3),
        (\<lparr>net_nodes = None, edges = [(0, 1), (1, 2), (0, 2)], score = 0\<rparr>, 8)]))) = [5, 8] \<and>
   map score (ranked_view (snd (add_networks (int \<circ> length)
       (LearnerResult 1000 None (Some 2) :: (nat, (nat \<times> nat) list) learner_result)
       [(\<lparr>net_nodes = None, edges = [(0, 1)], score = 0\<rparr>, 5),
        (\<lparr>net_nodes = None, edges = [(0, 1), (1, 2)], score = 0\<rparr>, 3),
        (\<lparr>net_nodes = None, edges = [(0, 1), (1, 2), (0, 2)], score = 0\<rparr>, 8),
        (\<lparr>net_nodes = None, edges = [], score = 0\<rparr>, 1)]))) = [8, 5]"
proof -
  let ?h = "int \<circ> length :: (nat \<times> nat) list \<Rightarrow> int"
  let ?a = "\<lparr>net_nodes = None :: nat option, edges = [(0 :: nat, 1 :: nat)], score = 0\<rparr>"
  let ?b = "\<lparr>net_nodes = None :: nat option, edges = [(0 :: nat, 1 :: nat), (1, 2)], score = 0\<rparr>"
  let ?c = "\<lparr>net_nodes = None :: nat option, edges = [(0 :: nat, 1 :: nat), (1, 2), (0, 2)], score = 0\<rparr>"
  let ?d = "\<lparr>net_nodes = None :: nat option, edges = [] :: (nat \<times> nat) list, score = 0\<rparr>"
  let ?r0 = "LearnerResult 1000 None (Some 2) :: (nat, (nat \<times> nat) list) learner_result"
  let ?r2 = "snd (add_networks ?h ?r0 [(?a, 5), (?b, 3)])"
  let ?r3 = "snd (add_network ?h ?r2 ?c 8)"
  have r2: "add_networks ?h ?r0 [(?a, 5), (?b, 3)] = (Inr PyNone, ?r2)"
    by (simp add: eval_defs)
  have cap: "0 < size_r ?r2" and full: "int (length (networks ?r2)) = size_r ?r2"
    and nets: "map score (networks ?r2) = [3, 5]"
    and new: "nethashes ?r2 (HashKey (hash_net ?h ?c)) = None"
    by (simp_all add: eval_defs)
  have ok: "index_ok ?h ?r2"
    by (rule conjunct1[OF conjunct2[OF add_networks_within_capacity]])
       (simp_all add: index_ok_def LearnerResult_def)
  have asc: "ascending ?r2" using nets by (simp add: ascending_def)
  have hd: "score (hd (networks ?r2)) = 3" by (simp add: eval_defs)
  from add_network_at_capacity[OF cap full ok asc new, of 8] hd
  have "fst (add_network ?h ?r2 ?c 8) = Inr PyNone"
    and "networks ?r3 = insort_right (tl (networks ?r2)) \<lparr>net_nodes = nodes ?r2, edges = edges ?c, score = 8\<rparr>"
    by simp_all
  then have r3: "add_network ?h ?r2 ?c 8 = (Inr PyNone, ?r3)" "map score (networks ?r3) = [5, 8]"
    by (simp_all add: prod_eq_iff eval_defs)
  have three: "add_networks ?h ?r0 [(?a, 5), (?b, 3), (?c, 8)] = (Inr PyNone, ?r3)"
    by (simp add: eval_defs)
  have four: "map score (ranked_view (snd (add_networks ?h ?r0 [(?a, 5), (?b, 3), (?c, 8), (?d, 1)]))) = [8, 5]"
    by (simp add: eval_defs)
  show ?thesis using cap nets r3 three four by simp
qed

subsection \<open>The capacity\<close>

text \<open>
  C3. For a result constructed with a positive capacity and every sequence of calls of
  \<open>add_network\<close>, after each call (after the first \<open>k\<close> calls, for every \<open>k\<close>) no call has
  raised and the number of networks held is at most the capacity.
\<close>

theorem capacity_invariant:
  "0 < size_r (LearnerResult cfg lrn sz :: ('v, 'e) learner_result) \<Longrightarrow>
   fst (add_networks hsh (LearnerResult cfg lrn sz :: ('v, 'e) learner_result) (take k offers)) = Inr PyNone \<and>
   int (length (networks (snd (add_networks hsh (LearnerResult cfg lrn sz :: ('v, 'e) learner_result) (take k offers)))))
     \<le> size_r (LearnerResult cfg lrn sz :: ('v, 'e) learner_result)"
proof -
  let ?r = "LearnerResult cfg lrn sz :: ('v, 'e) learner_result"
  assume "0 < size_r ?r"
  moreover have "index_ok hsh ?r" by (rule index_ok_LearnerResult)
  moreover have "int (length (networks ?r)) \<le> size_r ?r"
    using \<open>0 < size_r ?r\<close> by (simp add: LearnerResult_def Let_def)
  ultimately show ?thesis
    using add_networks_within_capacity[of ?r hsh "take k offers"] by simp
qed

theorem capacity_invariant_witness:
  "0 < size_r (LearnerResult 1000 None (Some 2) :: (nat, (nat \<times> nat) list) learner_result) \<and>
   fst (add_networks (int \<circ> length)
       (LearnerResult 1000 None (Some 2) :: (nat, (nat \<times> nat) list) learner_result)
       (take 3 [(\<lparr>net_nodes = None, edges = [(0, 1)], score = 0\<rparr>, 5),
                (\<lparr>net_nodes = None, edges = [(0, 1), (1, 2)], score = 0\<rparr>, 3),
                (\<lparr>net_nodes = None, edges = [(0, 1), (1, 2), (0, 2)], score = 0\<rparr>, 8),
                (\<lparr>net_nodes = None, edges = [], score = 0\<rparr>, 1)])) = Inr PyNone \<and>
   int (length (networks (snd (add_networks (int \<circ> length)
       (LearnerResult 1000 None (Some 2) :: (nat, (nat \<times> nat) list) learner_result)
       (take 3 [(\<lparr>net_nodes = None, edges = [(0, 1)], score = 0\<rparr>, 5),
                (\<lparr>net_nodes = None, edges = [(0, 1), (1, 2)], score = 0\<rparr>, 3),
                (\<lparr>net_nodes = None, edges = [(0, 1), (1, 2), (0, 2)], score = 0\<rparr>, 8),
                (\<lparr>net_nodes = None, edges = [], score = 0\<rparr>, 1)])))))
     \<le> size_r (LearnerResult 1000 None (Some 2) :: (nat, (nat \<times> nat) list) learner_result)"
proof -
  have pos: "0 < size_r (LearnerResult 1000 None (Some 2) :: (nat, (nat \<times> nat) list) learner_result)"
    by (simp add: LearnerResult_def)
  from capacity_invariant[OF pos] pos show ?thesis by blast
qed

subsection \<open>Capacity 0 and the default capacity\<close>

text \<open>
  A result whose capacity is \<open>0\<close> takes every network whose hash is new: over any sequence
  of calls nothing raises, no network leaves the list, and every hash offered is in the
  index afterwards. A result constructed without a size under the default configuration has
  the capacity 1000.
\<close>

lemma add_network_unbounded:
  assumes "size_r r = 0" "nethashes r (HashKey (hash_net hsh net)) = None"
  shows "add_network hsh r net sc =
         (Inr PyNone,
          r\<lparr>networks := insort_right (networks r) \<lparr>net_nodes = nodes r, edges = edges net, score = sc\<rparr>,
            nethashes := (nethashes r)(HashKey (hash_net hsh net) \<mapsto> 1)\<rparr>)"
  using assms by (simp add: add_network_def Let_def)

lemma add_network_unbounded_step:
  assumes "size_r r = 0"
  shows "fst (add_network hsh r net sc) = Inr PyNone \<and>
         set (networks r) \<subseteq> set (networks (snd (add_network hsh r net sc))) \<and>
         dom (nethashes (snd (add_network hsh r net sc))) =
           insert (HashKey (hash_net hsh net)) (dom (nethashes r))"
  using assms by (auto simp: add_network_def Let_def set_insort_right)

lemma add_networks_unbounded:
  "size_r r = 0 \<Longrightarrow>
   fst (add_networks hsh r offers) = Inr PyNone \<and>
   set (networks r) \<subseteq> set (networks (snd (add_networks hsh r offers))) \<and>
   dom (nethashes (snd (add_networks hsh r offers))) =
     dom (nethashes r) \<union> (\<lambda>p. HashKey (hash_net hsh (fst p))) ` set offers"
proof (induction offers arbitrary: r)
  case Nil
  then show ?case by simp
next
  case (Cons p offers)
  obtain net sc where p: "p = (net, sc)" by (cases p)
  let ?a = "add_network hsh r net sc"
  note s = add_network_unbounded_step[OF Cons.prems, of hsh net sc]
  have step: "add_networks hsh r ((net, sc) # offers) = add_networks hsh (snd ?a) offers"
    using s by (cases ?a) auto
  have "size_r (snd ?a) = 0" using Cons.prems by simp
  from Cons.IH[OF this] s show ?case unfolding p step by auto
qed

lemma LearnerResult_default_size:
  "size_r (LearnerResult result_size_default lrn None) = 1000"
  by (simp add: LearnerResult_def result_size_default_def Let_def)

text \<open>
  C7. A capacity of 0 is meant as unbounded, but the constructor does not keep a size of 0:
  \<open>size or config.get('result.size')\<close> replaces it by the configured value, 1000 by
  default. With the configured value 1, a result constructed with size 0 holds one network
  and turns down a second, new structure of lower score.
\<close>

theorem LearnerResult_size_zero_takes_config:
  "size_r (LearnerResult cfg lrn (Some 0) :: ('v, 'e) learner_result) = cfg \<and>
   size_r (LearnerResult result_size_default lrn (Some 0) :: ('v, 'e) learner_result) = 1000 \<and>
   map score (networks (snd (add_networks (int \<circ> length)
       (LearnerResult 1 None (Some 0) :: (nat, (nat \<times> nat) list) learner_result)
       [(\<lparr>net_nodes = None, edges = [(0, 1)], score = 0\<rparr>, 5),
        (\<lparr>net_nodes = None, edges = [(0, 1), (1, 2)], score = 0\<rparr>, 3)]))) = [5]"
  by (simp add: eval_defs result_size_default_def)

subsection \<open>What \<open>add_network\<close> returns\<close>

text \<open>
  C8, as the source has it. \<open>add_network\<close> never returns a boolean: it has no \<open>return\<close>.
  On a result with a capacity that is not negative and a well-formed index it returns
  \<open>None\<close>, whether the network is taken or not.
\<close>

theorem add_network_returns_None:
  "fst (add_network hsh r net sc) \<noteq> Inr (PyBool b) \<and>
   (0 \<le> size_r r \<and> index_ok hsh r \<longrightarrow> fst (add_network hsh r net sc) = Inr PyNone)"
proof -
  have "fst (add_network hsh r net sc) \<noteq> Inr (PyBool b)"
    by (simp add: add_network_def Let_def)
  moreover have "fst (add_network hsh r net sc) = Inr PyNone" if "0 \<le> size_r r" "index_ok hsh r"
  proof (cases "size_r r = 0")
    case True
    then show ?thesis by (simp add: add_network_def Let_def)
  next
    case False
    with that show ?thesis by (simp add: add_network_no_raise)
  qed
  ultimately show ?thesis by blast
qed

theorem add_network_returns_None_witness:
  "0 \<le> size_r (LearnerResult 1000 None (Some 1) :: (nat, (nat \<times> nat) list) learner_result) \<and>
   index_ok (int \<circ> length) (LearnerResult 1000 None (Some 1) :: (nat, (nat \<times> nat) list) learner_result) \<and>
   fst (add_network (int \<circ> length)
       (LearnerResult 1000 None (Some 1) :: (nat, (nat \<times> nat) list) learner_result)
       \<lparr>net_nodes = None, edges = [(0, 1)], score = 0\<rparr> 5) = Inr PyNone \<and>
   map score (networks (snd (add_network (int \<circ> length)
       (LearnerResult 1000 None (Some 1) :: (nat, (nat \<times> nat) list) learner_result)
       \<lparr>net_nodes = None, edges = [(0, 1)], score = 0\<rparr> 5))) = [5]"
proof -
  let ?r0 = "LearnerResult 1000 None (Some 1) :: (nat, (nat \<times> nat) list) learner_result"
  have sz: "0 \<le> size_r ?r0" by (simp add: LearnerResult_def)
  have ok: "index_ok (int \<circ> length) ?r0" by (rule index_ok_LearnerResult)
  have ins: "map score (networks (snd (add_network (int \<circ> length) ?r0
      \<lparr>net_nodes = None, edges = [(0, 1)], score = 0\<rparr> 5))) = [5]"
    by (simp add: eval_defs)
  from add_network_returns_None[of "int \<circ> length" ?r0 "\<lparr>net_nodes = None, edges = [(0, 1)], score = 0\<rparr>" 5 True]
    sz ok ins
  show ?thesis by blast
qed

text \<open>
  C8 as stated fails: the network offered to an empty result is taken, and the call does
  not return \<open>True\<close>.
\<close>

theorem add_network_returns_bool_counterexample:
  "networks (LearnerResult 1000 None (Some 2) :: (nat, (nat \<times> nat) list) learner_result) = [] \<and>
   map score (networks (snd (add_network (int \<circ> length)
       (LearnerResult 1000 None (Some 2) :: (nat, (nat \<times> nat) list) learner_result)
       \<lparr>net_nodes = None, edges = [(0, 1)], score = 0\<rparr> 5))) = [5] \<and>
   fst (add_network (int \<circ> length)
       (LearnerResult 1000 None (Some 2) :: (nat, (nat \<times> nat) list) learner_result)
       \<lparr>net_nodes = None, edges = [(0, 1)], score = 0\<rparr> 5) \<noteq> Inr (PyBool True)"
  by (simp add: eval_defs)

subsection \<open>Stopping a run\<close>

text \<open>
  C9, as the source has it. \<open>stop_run\<close> on a result with no runs raises \<open>IndexError\<close> and
  leaves the result as it is. On a result with runs it does not raise, whether or not the
  last run is still open: it sets the end of the last run and changes nothing else, so the
  result after the call is the result before it with the last run replaced.
\<close>

theorem stop_run_outcome:
  "(runs r = [] \<longrightarrow> stop_run now r = (Inl IndexError, r)) \<and>
   (runs r \<noteq> [] \<longrightarrow>
      stop_run now r =
        (Inr PyNone, r\<lparr>runs := butlast (runs r) @ [(last (runs r))\<lparr>end_t := Some now\<rparr>]\<rparr>))"
  by (simp add: stop_run_def)

theorem stop_run_outcome_witness:
  "runs (LearnerResult 1000 None None :: (nat, (nat \<times> nat) list) learner_result) = [] \<and>
   stop_run 2 (LearnerResult 1000 None None :: (nat, (nat \<times> nat) list) learner_result) =
     (Inl IndexError, LearnerResult 1000 None None) \<and>
   runs (snd (start_run ''host'' 1
     (LearnerResult 1000 None None :: (nat, (nat \<times> nat) list) learner_result))) \<noteq> [] \<and>
   stop_run 2 (snd (start_run ''host'' 1
     (LearnerResult 1000 None None :: (nat, (nat \<times> nat) list) learner_result))) =
     (Inr PyNone,
      (LearnerResult 1000 None None :: (nat, (nat \<times> nat) list) learner_result)
        \<lparr>runs := [\<lparr>start = 1, end_t = Some 2, host = ''host''\<rparr>]\<rparr>)"
proof -
  let ?r0 = "LearnerResult 1000 None None :: (nat, (nat \<times> nat) list) learner_result"
  let ?r1 = "snd (start_run ''host'' 1 ?r0)"
  have e: "runs ?r0 = []" by (simp add: LearnerResult_def)
  have r1: "?r1 = ?r0\<lparr>runs := [\<lparr>start = 1, end_t = None, host = ''host''\<rparr>]\<rparr>"
    by (simp add: start_run_def LearnerResult_def LearnerRunStats_def)
  have n: "runs ?r1 \<noteq> []" by (simp add: r1)
  from stop_run_outcome[of ?r0 2] e
  have a: "stop_run 2 ?r0 = (Inl IndexError, ?r0)" by blast
  from stop_run_outcome[of ?r1 2] n
  have "stop_run 2 ?r1 =
      (Inr PyNone, ?r1\<lparr>runs := butlast (runs ?r1) @ [(last (runs ?r1))\<lparr>end_t := Some 2\<rparr>]\<rparr>)"
    by blast
  then have b: "stop_run 2 ?r1 =
      (Inr PyNone, ?r0\<lparr>runs := [\<lparr>start = 1, end_t = Some 2, host = ''host''\<rparr>]\<rparr>)"
    by (simp add: r1)
  show ?thesis using e a n b by simp
qed

text \<open>
  C9 as stated fails: with no runs the exception is \<open>IndexError\<close>, not
  \<open>InvalidStateError\<close>; and when the only run is already stopped, a second \<open>stop_run\<close>
  returns and overwrites its end.
\<close>

theorem stop_run_InvalidStateError_counterexample:
  "stop_run 2 (LearnerResult 1000 None None :: (nat, (nat \<times> nat) list) learner_result) =
     (Inl IndexError, LearnerResult 1000 None None) \<and>
   fst (stop_run 2 (LearnerResult 1000 None None :: (nat, (nat \<times> nat) list) learner_result)) \<noteq>
     Inl InvalidStateError \<and>
   map end_t (runs (snd (stop_run 2 (snd (start_run ''host'' 1
     (LearnerResult 1000 None None :: (nat, (nat \<times> nat) list) learner_result)))))) = [Some 2] \<and>
   fst (stop_run 3 (snd (stop_run 2 (snd (start_run ''host'' 1
     (LearnerResult 1000 None None :: (nat, (nat \<times> nat) list) learner_result)))))) = Inr PyNone \<and>
   map end_t (runs (snd (stop_run 3 (snd (stop_run 2 (snd (start_run ''host'' 1
     (LearnerResult 1000 None None :: (nat, (nat \<times> nat) list) learner_result)))))))) = [Some 3]"
  by (simp add: stop_run_def start_run_def LearnerResult_def LearnerRunStats_def)

subsection \<open>Merging\<close>

text \<open>
  \<open>set\<close> keeps, of the networks it is given, the first of every structure. When the call of
  \<open>nodes\<close> of the first result returns, \<open>merge\<close> of two or more results returns a new
  result: its networks are those first networks, in ascending order of score, as many as
  there are structures among the inputs (whatever the capacities); its runs are the runs of
  the inputs in order; the keys of its \<open>nethashes\<close> are the networks.
\<close>

lemma in_set_foldl_py_set_add:
  "x \<in> set (foldl py_set_add acc xs) \<longleftrightarrow>
     x \<in> set acc \<or> (edges x \<notin> edges ` set acc \<and> find (\<lambda>y. edges y = edges x) xs = Some x)"
proof (induction xs arbitrary: acc)
  case Nil
  show ?case by simp
next
  case (Cons a xs)
  show ?case
  proof (cases "\<exists>y \<in> set acc. net_eq y a")
    case True
    then have "py_set_add acc a = acc" by (simp add: py_set_add_def)
    moreover have "edges x \<notin> edges ` set acc \<Longrightarrow> edges a \<noteq> edges x"
      using True unfolding net_eq_def by (metis imageI)
    ultimately show ?thesis using Cons.IH[of acc] by auto
  next
    case False
    then have "py_set_add acc a = acc @ [a]" by (simp add: py_set_add_def)
    moreover have "edges a \<notin> edges ` set acc"
      using False by (auto simp: net_eq_def)
    ultimately show ?thesis using Cons.IH[of "acc @ [a]"] by auto
  qed
qed

lemma in_set_py_set:
  "x \<in> set (py_set xs) \<longleftrightarrow> find (\<lambda>y. edges y = edges x) xs = Some x"
  by (simp add: py_set_def in_set_foldl_py_set_add)

lemma distinct_foldl_py_set_add:
  "distinct (map edges acc) \<Longrightarrow> distinct (map edges (foldl py_set_add acc xs))"
proof (induction xs arbitrary: acc)
  case Nil
  then show ?case by simp
next
  case (Cons a xs)
  have "distinct (map edges (py_set_add acc a))"
    using Cons.prems by (auto simp: py_set_add_def net_eq_def)
  then show ?case using Cons.IH by simp
qed

lemma distinct_py_set: "distinct (map edges (py_set xs))"
  by (simp add: py_set_def distinct_foldl_py_set_add)

lemma py_set_subset: "set (py_set xs) \<subseteq> set xs"
proof
  fix x assume "x \<in> set (py_set xs)"
  then have "find (\<lambda>y. edges y = edges x) xs = Some x" by (simp add: in_set_py_set)
  then show "x \<in> set xs" by (auto simp: find_Some_iff)
qed

lemma edges_py_set: "edges ` set (py_set xs) = edges ` set xs"
proof
  show "edges ` set (py_set xs) \<subseteq> edges ` set xs" using py_set_subset by blast
  show "edges ` set xs \<subseteq> edges ` set (py_set xs)"
  proof
    fix e assume "e \<in> edges ` set xs"
    then obtain y where y: "y \<in> set xs" "edges y = e" by auto
    then obtain x where x: "find (\<lambda>z. edges z = e) xs = Some x"
      by (cases "find (\<lambda>z. edges z = e) xs") (auto simp: find_None_iff)
    then have ex: "edges x = e" by (auto simp: find_Some_iff)
    with x have "x \<in> set (py_set xs)" by (simp add: in_set_py_set)
    with ex show "e \<in> edges ` set (py_set xs)" by auto
  qed
qed

lemma length_py_set: "length (py_set xs) = card (edges ` set xs)"
proof -
  have "length (py_set xs) = length (map edges (py_set xs))" by simp
  also have "\<dots> = card (set (map edges (py_set xs)))"
    using distinct_py_set[of xs] by (simp only: distinct_card)
  also have "\<dots> = card (edges ` set xs)" by (simp add: edges_py_set)
  finally show ?thesis .
qed

lemma merge_two_or_more:
  assumes "nodes r0 = Some v" "call_nodes v = Inr nd"
  shows "merge cfg call_nodes set_order (r0 # r1 # rest) =
         Inr \<lparr>data = data r0, nodes = nd, size_r = cfg,
              networks = sort_key score (set_order (py_set (concat (map networks (r0 # r1 # rest))))),
              nethashes = map_of (map (\<lambda>net. (NetKey net, 1))
                (sort_key score (set_order (py_set (concat (map networks (r0 # r1 # rest))))))),
              runs = concat (map runs (r0 # r1 # rest))\<rparr>"
  using assms by (simp add: merge_def LearnerResult_def Let_def)

lemma merge_no_nodes:
  "nodes r0 = None \<Longrightarrow> merge cfg call_nodes set_order (r0 # r1 # rest) = Inl TypeError"
  by (simp add: merge_def)

lemma merge_single: "merge cfg call_nodes set_order [r] = Inr r"
  by (simp add: merge_def)

lemma merge_result:
  assumes n: "nodes r0 = Some v" and c: "call_nodes v = Inr nd"
    and perm: "\<And>ys. mset (set_order ys) = mset ys"
  shows "\<exists>m. merge cfg call_nodes set_order (r0 # r1 # rest) = Inr m \<and>
           sorted (map score (networks m)) \<and>
           set (networks m) = {x. find (\<lambda>y. edges y = edges x) (concat (map networks (r0 # r1 # rest))) = Some x} \<and>
           distinct (map edges (networks m)) \<and>
           length (networks m) = card (edges ` (\<Union>r \<in> set (r0 # r1 # rest). set (networks r))) \<and>
           runs m = concat (map runs (r0 # r1 # rest)) \<and>
           size_r m = cfg \<and> data m = data r0 \<and> nodes m = nd \<and>
           dom (nethashes m) = NetKey ` set (networks m)"
proof -
  let ?all = "concat (map networks (r0 # r1 # rest))"
  let ?nets = "sort_key score (set_order (py_set ?all))"
  have ms: "mset ?nets = mset (py_set ?all)" by (simp add: perm)
  then have st: "set ?nets = set (py_set ?all)" by (metis set_mset_mset)
  have "mset (map edges ?nets) = mset (map edges (py_set ?all))"
    using ms by (metis mset_map)
  then have d: "distinct (map edges ?nets)"
    using distinct_py_set[of ?all] by (metis mset_eq_imp_distinct_iff)
  have "length ?nets = length (py_set ?all)" using ms by (metis size_mset)
  then have len: "length ?nets = card (edges ` (\<Union>r \<in> set (r0 # r1 # rest). set (networks r)))"
    by (simp add: length_py_set)
  have dm: "dom (map_of (map (\<lambda>net. (NetKey net, 1::int)) ?nets)) = NetKey ` set ?nets"
    by (simp add: dom_map_of_conv_image_fst image_image)
  have s: "sorted (map score ?nets)" by simp
  have mem: "set ?nets = {x. find (\<lambda>y. edges y = edges x) ?all = Some x}"
    unfolding st by (auto simp: in_set_py_set)
  show ?thesis
    unfolding merge_two_or_more[of r0 v call_nodes nd, OF n c]
    using s mem d len dm by simp
qed

text \<open>
  C4. \<open>merge\<close> of two results constructed without a learner returns no result: their
  \<open>nodes\<close> is \<open>None\<close>, and \<open>results[0].nodes()\<close> raises \<open>TypeError\<close>.
\<close>

theorem merge_without_nodes_TypeError:
  "merge cfg call_nodes set_order [LearnerResult cfg1 None sz1, LearnerResult cfg2 None sz2] = Inl TypeError"
  by (simp add: merge_def LearnerResult_def)

text \<open>
  C5. Merging two or more results that hold a network never gives a result whose index is
  the set of the hashes of its networks, whatever the call of \<open>nodes\<close> does and in whatever
  order \<open>set\<close> yields its elements: either the call raises and \<open>merge\<close> returns no result,
  or \<open>merge\<close> returns a result whose \<open>nethashes\<close> has the networks themselves as keys.
\<close>

theorem merge_result_never_index_ok:
  assumes held: "concat (map networks (r0 # r1 # rest)) \<noteq> []"
    and perm: "\<And>ys. mset (set_order ys) = mset ys"
  shows "\<not> (\<exists>m. merge cfg call_nodes set_order (r0 # r1 # rest) = Inr m \<and> index_ok hsh m)"
proof
  assume "\<exists>m. merge cfg call_nodes set_order (r0 # r1 # rest) = Inr m \<and> index_ok hsh m"
  then obtain m where m: "merge cfg call_nodes set_order (r0 # r1 # rest) = Inr m"
    and ok: "index_ok hsh m" by blast
  let ?all = "concat (map networks (r0 # r1 # rest))"
  let ?nets = "sort_key score (set_order (py_set ?all))"
  obtain v where n: "nodes r0 = Some v"
    using m merge_no_nodes[of r0 cfg call_nodes set_order r1 rest] by (cases "nodes r0") auto
  obtain nd where c: "call_nodes v = Inr nd"
    using m n by (cases "call_nodes v") (auto simp: merge_def)
  have nets: "networks m = ?nets"
    and keys: "nethashes m = map_of (map (\<lambda>net. (NetKey net, 1)) ?nets)"
    using m unfolding merge_two_or_more[of r0 v call_nodes nd, OF n c] by auto
  have "length ?nets = length (py_set ?all)"
    using perm[of "py_set ?all"] by (metis length_sort size_mset)
  also have "\<dots> = card (edges ` set ?all)" by (rule length_py_set)
  finally have "length ?nets \<noteq> 0"
    using held by (simp add: card_eq_0_iff del: set_concat)
  then have "networks m \<noteq> []"
    unfolding nets by (metis length_0_conv)
  then obtain x where x: "x \<in> set (networks m)"
    by (metis list.set_intros(1) neq_Nil_conv)
  have "dom (nethashes m) = NetKey ` set (networks m)"
    unfolding keys nets by (simp add: dom_map_of_conv_image_fst image_image)
  with x have "NetKey x \<in> dom (nethashes m)" by blast
  moreover have "dom (nethashes m) = HashKey ` hash_net hsh ` set (networks m)"
    using ok by (simp add: index_ok_def)
  ultimately show False by auto
qed

theorem merge_result_never_index_ok_witness:
  "concat (map networks
     [snd (add_network (int \<circ> length)
        (LearnerResult 1000 (Some \<lparr>learner_data = Some \<lparr>variables = [0, 1, 2 :: nat]\<rparr>\<rparr>) None)
        \<lparr>net_nodes = None, edges = [(0 :: nat, 1 :: nat)], score = 0\<rparr> 5),
      snd (add_network (int \<circ> length)
        (LearnerResult 1000 (Some \<lparr>learner_data = Some \<lparr>variables = [0, 1, 2 :: nat]\<rparr>\<rparr>) None)
        \<lparr>net_nodes = None, edges = [(0 :: nat, 1 :: nat), (1, 2)], score = 0\<rparr> 3)]) \<noteq> [] \<and>
   (\<forall>ys :: (nat list, (nat \<times> nat) list) network list. mset (id ys) = mset ys) \<and>
   (\<forall>call_nodes. \<not> (\<exists>m. merge 1000 call_nodes id
     [snd (add_network (int \<circ> length)
        (LearnerResult 1000 (Some \<lparr>learner_data = Some \<lparr>variables = [0, 1, 2 :: nat]\<rparr>\<rparr>) None)
        \<lparr>net_nodes = None, edges = [(0 :: nat, 1 :: nat)], score = 0\<rparr> 5),
      snd (add_network (int \<circ> length)
        (LearnerResult 1000 (Some \<lparr>learner_data = Some \<lparr>variables = [0, 1, 2 :: nat]\<rparr>\<rparr>) None)
        \<lparr>net_nodes = None, edges = [(0 :: nat, 1 :: nat), (1, 2)], score = 0\<rparr> 3)] = Inr m \<and>
     index_ok (int \<circ> length) m))"
proof -
  let ?ra = "snd (add_network (int \<circ> length)
        (LearnerResult 1000 (Some \<lparr>learner_data = Some \<lparr>variables = [0, 1, 2 :: nat]\<rparr>\<rparr>) None)
        \<lparr>net_nodes = None, edges = [(0 :: nat, 1 :: nat)], score = 0\<rparr> 5)"
  let ?rb = "snd (add_network (int \<circ> length)
        (LearnerResult 1000 (Some \<lparr>learner_data = Some \<lparr>variables = [0, 1, 2 :: nat]\<rparr>\<rparr>) None)
        \<lparr>net_nodes = None, edges = [(0 :: nat, 1 :: nat), (1, 2)], score = 0\<rparr> 3)"
  have held: "concat (map networks [?ra, ?rb]) \<noteq> []"
    by (simp add: eval_defs)
  have perm: "\<And>ys :: (nat list, (nat \<times> nat) list) network list. mset (id ys) = mset ys"
    by simp
  have "\<not> (\<exists>m. merge 1000 call_nodes id [?ra, ?rb] = Inr m \<and> index_ok (int \<circ> length) m)"
    for call_nodes
    by (rule merge_result_never_index_ok[OF held perm])
  with held show ?thesis by simp
qed

subsection \<open>Merging nothing\<close>

text \<open>
  C10. \<open>merge\<close> needs at least one result: on an empty sequence of results it raises
  \<open>IndexError\<close> (at \<open>results[0]\<close>) and returns no result.
\<close>

theorem merge_empty_IndexError:
  "merge cfg call_nodes set_order [] = Inl IndexError"
  by (simp add: merge_def)

end
